theory Spec2Isabelle
  imports Main "HOL-Library.Multiset"
begin

section \<open>The Yahtzee scoring rules of \<^verbatim>\<open>src/Rules.js\<close>\<close>

text \<open>
  A hand is a JavaScript array of numbers. The dice are small integers, on which JavaScript's
  double arithmetic is exact, so a die is an \<^typ>\<open>int\<close> and a hand an \<^typ>\<open>int list\<close>.
  The only operation of the file that can throw is \<^verbatim>\<open>Array.prototype.reduce\<close> without an
  initial value on an empty array (a \<^verbatim>\<open>TypeError\<close>); every function that may reach it returns
  \<open>error + int\<close>.
\<close>

subsection \<open>JavaScript containers\<close>

text \<open>
  A \<^verbatim>\<open>Map\<close> iterates in insertion order, and \<^verbatim>\<open>set\<close> on a key that is present replaces the
  value where it stands: an association list, updated in place or extended at its end.
\<close>

type_synonym ('k, 'v) js_map = "('k \<times> 'v) list"

fun map_get :: "('k, 'v) js_map \<Rightarrow> 'k \<Rightarrow> 'v option" where
  "map_get [] k = None"
| "map_get ((k', v') # m) k = (if k' = k then Some v' else map_get m k)"

fun map_set :: "('k, 'v) js_map \<Rightarrow> 'k \<Rightarrow> 'v \<Rightarrow> ('k, 'v) js_map" where
  "map_set [] k v = [(k, v)]"
| "map_set ((k', v') # m) k v = (if k' = k then (k', v) # m else (k', v') # map_set m k v)"

definition map_values :: "('k, 'v) js_map \<Rightarrow> 'v list" where
  "map_values m = map snd m"

text \<open>
  A \<^verbatim>\<open>Set\<close> likewise keeps the first occurrence of every element, in insertion order.
\<close>

type_synonym 'a js_set = "'a list"

fun set_add :: "'a js_set \<Rightarrow> 'a \<Rightarrow> 'a js_set" where
  "set_add [] x = [x]"
| "set_add (y # s) x = (if y = x then y # s else y # set_add s x)"

definition new_Set :: "'a list \<Rightarrow> 'a js_set" where
  "new_Set xs = foldl set_add [] xs"

definition set_size :: "'a js_set \<Rightarrow> nat" where
  "set_size s = length s"

definition set_has :: "'a js_set \<Rightarrow> 'a \<Rightarrow> bool" where
  "set_has s x = List.member s x"

text \<open>\<^verbatim>\<open>a[0]\<close> is \<^verbatim>\<open>undefined\<close> on an empty array: \<open>None\<close>.\<close>

fun index0 :: "'a list \<Rightarrow> 'a option" where
  "index0 [] = None"
| "index0 (x # xs) = Some x"

subsection \<open>The helpers of class \<^verbatim>\<open>Rule\<close>\<close>

datatype error = TypeError

text \<open>\<^verbatim>\<open>dice.reduce((prev, curr) => prev + curr)\<close>: the first die starts the accumulator.\<close>

fun sum_dice :: "int list \<Rightarrow> error + int" where
  "sum_dice [] = Inl TypeError"
| "sum_dice (d # ds) = Inr (foldl (\<lambda>prev curr. prev + curr) d ds)"

text \<open>
  One turn of \<^verbatim>\<open>for (let d of dice) freqs.set(d, (freqs.get(d) || 0) + 1)\<close>;
  \<^verbatim>\<open>x || 0\<close> is \<open>0\<close> when \<open>x\<close> is \<^verbatim>\<open>undefined\<close> or \<open>0\<close>.
\<close>

definition freq_step :: "(int, int) js_map \<Rightarrow> int \<Rightarrow> (int, int) js_map" where
  "freq_step freqs d =
     map_set freqs d
       ((case map_get freqs d of None \<Rightarrow> 0 | Some c \<Rightarrow> (if c = 0 then 0 else c)) + 1)"

definition freq :: "int list \<Rightarrow> int list" where
  "freq dice = map_values (foldl freq_step [] dice)"

definition count_dice :: "int list \<Rightarrow> int \<Rightarrow> int" where
  "count_dice dice val = int (length (filter (\<lambda>d. d = val) dice))"

subsection \<open>The rule classes and their \<^verbatim>\<open>evalRoll\<close>\<close>

text \<open>
  The constructor copies its parameter object onto the instance; each subclass reads one
  numeric parameter (\<^verbatim>\<open>val\<close>, \<^verbatim>\<open>count\<close> or \<^verbatim>\<open>score\<close>) and the description.
\<close>

datatype rule =
    TotalOneNumber int string
  | SumDistro int string
  | FullHouse int string
  | SmallStraight int string
  | LargeStraight int string
  | Yahtzee int string

fun evalRoll :: "rule \<Rightarrow> int list \<Rightarrow> error + int" where
  "evalRoll (TotalOneNumber val desc) dice = Inr (val * count_dice dice val)"
| "evalRoll (SumDistro count' desc) dice =
     (if list_ex (\<lambda>c. c \<ge> count') (freq dice) then sum_dice dice else Inr 0)"
| "evalRoll (FullHouse score desc) dice =
     Inr (if list_ex (\<lambda>c. c = 3) (freq dice) \<and> list_ex (\<lambda>c. c = 2) (freq dice)
          then score else 0)"
| "evalRoll (SmallStraight score desc) dice =
     (let d = new_Set dice in
      Inr (if (set_size d = 4 \<and>
                (\<not> set_has d 1 \<and> \<not> set_has d 2 \<or> \<not> set_has d 1 \<and> \<not> set_has d 6 \<or>
                 \<not> set_has d 5 \<and> \<not> set_has d 6)) \<or>
               (set_size d = 5 \<and> (\<not> set_has d 1 \<or> \<not> set_has d 6))
           then score else 0))"
| "evalRoll (LargeStraight score desc) dice =
     (let d = new_Set dice in
      Inr (if set_size d = 5 \<and> (\<not> set_has d 1 \<or> \<not> set_has d 6) then score else 0))"
| "evalRoll (Yahtzee score desc) dice =
     Inr (if index0 (freq dice) = Some 5 then score else 0)"

subsection \<open>The exported rule instances\<close>

definition ones :: rule where
  "ones = TotalOneNumber 1 ''1 point for each ones''"

definition twos :: rule where
  "twos = TotalOneNumber 2 ''2 point for each twos''"

definition threes :: rule where
  "threes = TotalOneNumber 3 ''3 point for each threes''"

definition fours :: rule where
  "fours = TotalOneNumber 4 ''4 point for each fours''"

definition fives :: rule where
  "fives = TotalOneNumber 5 ''5 point for each fives''"

definition sixes :: rule where
  "sixes = TotalOneNumber 6 ''6 point for each sixs''"

definition threeOfKind :: rule where
  "threeOfKind = SumDistro 3 ''Sum of dice for 3 same dices''"

definition fourOfKind :: rule where
  "fourOfKind = SumDistro 4 ''Sum of dice for 4 same dices''"

definition fullHouse :: rule where
  "fullHouse = FullHouse 25 (CHR 0x09 # ''If 3 of one value and 2 of another, score 25'')"

definition smallStraight :: rule where
  "smallStraight = SmallStraight 30 (CHR 0x09 # ''If 4+ values in a row, score 30'')"

definition largeStraight :: rule where
  "largeStraight = LargeStraight 40 ''If 5 values in a row, score 40''"

definition yahtzee :: rule where
  "yahtzee = Yahtzee 50 ''If all values match, score 50''"

definition chance :: rule where
  "chance = SumDistro 0 (CHR 0x09 # ''Score sum of all dice'')"

definition all_rules :: "rule list" where
  "all_rules = [ones, twos, threes, fours, fives, sixes, threeOfKind, fourOfKind,
                fullHouse, smallStraight, largeStraight, yahtzee, chance]"

subsection \<open>Hands\<close>

text \<open>The hands the rules are meant for: five dice, each showing one of the faces 1 to 6.\<close>

definition valid_hand :: "int list \<Rightarrow> bool" where
  "valid_hand dice = (length dice = 5 \<and> list_all (\<lambda>d. 1 \<le> d \<and> d \<le> 6) dice)"

subsection \<open>The reference check for straights\<close>

text \<open>
  The specification's independent check: the longest run of consecutive values among the
  distinct faces of a hand. \<open>run_at dice v\<close> is the length of the run that starts at face \<open>v\<close>.
\<close>

definition faces :: "int list" where
  "faces = [1, 2, 3, 4, 5, 6]"

definition run_at :: "int list \<Rightarrow> int \<Rightarrow> nat" where
  "run_at dice v = length (takeWhile (\<lambda>x. x \<in> set dice) (dropWhile (\<lambda>x. x < v) faces))"

definition longest_run :: "int list \<Rightarrow> nat" where
  "longest_run dice = foldr (\<lambda>v. max (run_at dice v)) faces 0"

section \<open>Facts about the containers and the helpers\<close>

lemmas rule_defs =
  ones_def twos_def threes_def fours_def fives_def sixes_def threeOfKind_def fourOfKind_def
  fullHouse_def smallStraight_def largeStraight_def yahtzee_def chance_def

lemma set_set_add: "set (set_add s x) = insert x (set s)"
  by (induction s) auto

lemma distinct_set_add: "distinct s \<Longrightarrow> distinct (set_add s x)"
  by (induction s) (auto simp: set_set_add)

lemma set_foldl_set_add: "set (foldl set_add s xs) = set s \<union> set xs"
  by (induction xs arbitrary: s) (auto simp: set_set_add)

lemma distinct_foldl_set_add: "distinct s \<Longrightarrow> distinct (foldl set_add s xs)"
  by (induction xs arbitrary: s) (auto simp: distinct_set_add)

lemma set_new_Set: "set (new_Set xs) = set xs"
  by (simp add: new_Set_def set_foldl_set_add)

lemma distinct_new_Set: "distinct (new_Set xs)"
  by (simp add: new_Set_def distinct_foldl_set_add)

lemma set_size_new_Set: "set_size (new_Set xs) = card (set xs)"
  using distinct_card [OF distinct_new_Set, of xs] by (simp add: set_size_def set_new_Set)

lemma set_has_new_Set: "set_has (new_Set xs) x = (x \<in> set xs)"
  by (simp add: set_has_def set_new_Set)

lemma map_get_map_of: "map_get m k = map_of m k"
  by (induction m) auto

lemma map_of_map_set: "map_of (map_set m k v) = (map_of m)(k \<mapsto> v)"
  by (induction m) auto

lemma keys_map_set:
  "map fst (map_set m k v) = (if k \<in> fst ` set m then map fst m else map fst m @ [k])"
  by (induction m) (auto split: if_splits)

lemma freq_step_eq:
  "freq_step m d = map_set m d ((case map_of m d of None \<Rightarrow> 0 | Some c \<Rightarrow> c) + 1)"
  by (simp add: freq_step_def map_get_map_of split: option.splits)

lemma keys_freq_step:
  "map fst (freq_step m d) = (if d \<in> fst ` set m then map fst m else map fst m @ [d])"
  by (simp add: freq_step_eq keys_map_set)

lemma distinct_keys_freq_loop:
  "distinct (map fst m) \<Longrightarrow> distinct (map fst (foldl freq_step m dice))"
  by (induction dice arbitrary: m) (auto simp: keys_freq_step)

lemma set_keys_freq_loop:
  "fst ` set (foldl freq_step m dice) = fst ` set m \<union> set dice"
proof (induction dice arbitrary: m)
  case Nil
  show ?case by simp
next
  case (Cons d ds)
  have "fst ` set (freq_step m d) = insert d (fst ` set m)"
    using arg_cong [OF keys_freq_step [of m d], of set] by (auto split: if_splits)
  with Cons show ?case by simp
qed

lemma map_of_freq_loop:
  "map_of (foldl freq_step m dice) k =
     (if k \<in> set dice
      then Some ((case map_of m k of None \<Rightarrow> 0 | Some c \<Rightarrow> c) + int (count_list dice k))
      else map_of m k)"
proof (induction dice arbitrary: m)
  case Nil
  show ?case by simp
next
  case (Cons d ds)
  have step: "map_of (freq_step m d) =
      (map_of m)(d \<mapsto> (case map_of m d of None \<Rightarrow> 0 | Some c \<Rightarrow> c) + 1)"
    by (simp add: freq_step_eq map_of_map_set)
  have "map_of (foldl freq_step m (d # ds)) k = map_of (foldl freq_step (freq_step m d) ds) k"
    by simp
  also have "\<dots> = (if k \<in> set ds
      then Some ((case map_of (freq_step m d) k of None \<Rightarrow> 0 | Some c \<Rightarrow> c) +
                 int (count_list ds k))
      else map_of (freq_step m d) k)"
    by (rule Cons.IH)
  also have "\<dots> = (if k \<in> set (d # ds)
      then Some ((case map_of m k of None \<Rightarrow> 0 | Some c \<Rightarrow> c) + int (count_list (d # ds) k))
      else map_of m k)"
    by (cases "k = d") (simp_all add: step)
  finally show ?case .
qed

lemma hd_key_freq_loop:
  "m \<noteq> [] \<Longrightarrow> foldl freq_step m dice \<noteq> [] \<and> fst (hd (foldl freq_step m dice)) = fst (hd m)"
proof (induction dice arbitrary: m)
  case Nil
  then show ?case by simp
next
  case (Cons d ds)
  from Cons.prems obtain p ps where m: "m = p # ps" by (cases m) auto
  have "freq_step m d \<noteq> [] \<and> fst (hd (freq_step m d)) = fst (hd m)"
    by (cases p) (simp add: m freq_step_eq)
  with Cons.IH [of "freq_step m d"] show ?case by simp
qed

lemma set_freq: "set (freq dice) = (\<lambda>v. int (count_list dice v)) ` set dice"
proof -
  let ?fm = "foldl freq_step [] dice"
  have d: "distinct (map fst ?fm)" by (rule distinct_keys_freq_loop) simp
  have "set (freq dice) = snd ` set ?fm" by (simp add: freq_def map_values_def)
  also have "\<dots> = ran (map_of ?fm)" using ran_distinct [OF d] by simp
  also have "\<dots> = (\<lambda>v. int (count_list dice v)) ` set dice"
    by (auto simp: ran_def map_of_freq_loop split: if_splits)
  finally show ?thesis .
qed

lemma length_freq: "length (freq dice) = card (set dice)"
proof -
  let ?fm = "foldl freq_step [] dice"
  have d: "distinct (map fst ?fm)" by (rule distinct_keys_freq_loop) simp
  have "length (freq dice) = length (map fst ?fm)" by (simp add: freq_def map_values_def)
  also have "\<dots> = card (set (map fst ?fm))" using distinct_card [OF d] by simp
  also have "\<dots> = card (set dice)" using set_keys_freq_loop [of "[]" dice] by simp
  finally show ?thesis .
qed

lemma index0_freq:
  "index0 (freq dice) = (case dice of [] \<Rightarrow> None | d # ds \<Rightarrow> Some (int (count_list dice d)))"
proof (cases dice)
  case Nil
  then show ?thesis by (simp add: freq_def map_values_def)
next
  case (Cons d ds)
  let ?fm = "foldl freq_step [(d, 1)] ds"
  have fm: "foldl freq_step [] dice = ?fm" by (simp add: Cons freq_step_eq)
  from hd_key_freq_loop [of "[(d, 1)]" ds]
  obtain c rest where r: "?fm = (d, c) # rest" by (cases ?fm) auto
  have "map_of ?fm d = Some c" by (simp add: r)
  then have "c = int (count_list dice d)"
    by (simp add: map_of_freq_loop Cons split: if_splits)
  with fm r show ?thesis by (simp only: freq_def map_values_def Cons) simp
qed

lemma sum_dice_sum_list: "dice \<noteq> [] \<Longrightarrow> sum_dice dice = Inr (sum_list dice)"
proof (cases dice)
  case Nil
  assume "dice \<noteq> []" with Nil show ?thesis by simp
next
  case (Cons d ds)
  have "foldl (\<lambda>prev curr. prev + curr) a ds = a + sum_list ds" for a
    by (induction ds arbitrary: a) auto
  then show ?thesis by (simp add: Cons)
qed

lemma count_dice_count_list: "count_dice dice v = int (count_list dice v)"
  by (induction dice) (auto simp: count_dice_def)

lemma valid_hand_nonempty: "valid_hand dice \<Longrightarrow> dice \<noteq> []"
  by (auto simp: valid_hand_def)

lemma valid_hand_faces: "valid_hand dice \<Longrightarrow> set dice \<subseteq> {1, 2, 3, 4, 5, 6}"
proof
  fix x assume "valid_hand dice" "x \<in> set dice"
  then have "1 \<le> x \<and> x \<le> 6" by (auto simp: valid_hand_def list_all_iff)
  then show "x \<in> {1, 2, 3, 4, 5, 6}" by auto
qed

lemma count_list_full: "(count_list xs v = length xs) = (\<forall>x \<in> set xs. x = v)"
proof (induction xs)
  case Nil
  show ?case by simp
next
  case (Cons x xs)
  have "count_list xs v \<le> length xs" by (rule count_le_length)
  with Cons show ?case by auto
qed

lemma mem_freq: "(c \<in> set (freq dice)) = (\<exists>v \<in> set dice. int (count_list dice v) = c)"
  by (auto simp: set_freq)

lemma index0_freq_5:
  assumes "length dice = 5"
  shows "(index0 (freq dice) = Some 5) = (\<exists>v. count_list dice v = 5)"
proof
  assume "index0 (freq dice) = Some 5"
  then show "\<exists>v. count_list dice v = 5"
    by (auto simp: index0_freq split: list.splits)
next
  assume "\<exists>v. count_list dice v = 5"
  then obtain v where v: "count_list dice v = 5" ..
  with assms have all: "\<forall>x \<in> set dice. x = v" by (simp flip: count_list_full)
  from assms obtain d ds where d: "dice = d # ds" by (cases dice) auto
  with all have "d = v" by simp
  with v d show "index0 (freq dice) = Some 5" by (simp add: index0_freq)
qed

lemma all_equal_replicate:
  assumes "length dice = 5" and "\<forall>d \<in> set dice. d = v"
  shows "dice = [v, v, v, v, v]"
proof -
  from assms have "dice = replicate 5 v" by (intro replicate_eqI) auto
  then show ?thesis by (simp add: numeral_eq_Suc)
qed

lemma freq_all_equal: "freq [v, v, v, v, v] = [5]"
  by (simp add: freq_def freq_step_def map_values_def)

lemma count_list_mset: "mset xs = mset ys \<Longrightarrow> count_list xs v = count_list ys v"
  using count_mset [of xs v] count_mset [of ys v] by simp

lemma sum_list_mset: "mset xs = mset ys \<Longrightarrow> sum_list xs = (sum_list ys :: int)"
  using sum_mset_sum_list [of xs] sum_mset_sum_list [of ys] by simp

lemma set_freq_mset: "mset xs = mset ys \<Longrightarrow> set (freq xs) = set (freq ys)"
proof -
  assume m: "mset xs = mset ys"
  then have "set xs = set ys" by (rule mset_eq_setD)
  moreover have "count_list xs v = count_list ys v" for v using m by (rule count_list_mset)
  ultimately show ?thesis by (simp add: set_freq)
qed

lemma sum_list_faces:
  "\<forall>d \<in> set dice. 1 \<le> d \<and> d \<le> 6 \<Longrightarrow>
   0 \<le> sum_list dice \<and> sum_list dice \<le> 6 * int (length dice)"
  by (induction dice) auto

lemma valid_hand_sum: "valid_hand dice \<Longrightarrow> 0 \<le> sum_list dice \<and> sum_list dice \<le> 30"
  using sum_list_faces [of dice] by (simp add: valid_hand_def list_all_iff)

lemma valid_hand_count: "valid_hand dice \<Longrightarrow> int (count_list dice v) \<le> 5"
  using count_le_length [of dice v] by (simp add: valid_hand_def)

lemma evalRoll_TotalOneNumber:
  "evalRoll (TotalOneNumber val desc) dice = Inr (val * int (count_list dice val))"
  by (simp add: count_dice_count_list)

lemma evalRoll_SumDistro_cases:
  "dice \<noteq> [] \<Longrightarrow>
   evalRoll (SumDistro c desc) dice = Inr 0 \<or> evalRoll (SumDistro c desc) dice = Inr (sum_list dice)"
  by (simp add: sum_dice_sum_list)

lemma evalRoll_flat_cases:
  "r \<in> {FullHouse score desc, SmallStraight score desc, LargeStraight score desc,
         Yahtzee score desc} \<Longrightarrow>
   evalRoll r dice = Inr 0 \<or> evalRoll r dice = Inr score"
  by (auto simp: Let_def)

section \<open>The chance rule on an empty hand\<close>

text \<open>
  C10: the chance rule, \<^verbatim>\<open>SumDistro\<close> with \<^verbatim>\<open>count\<close> 0, returns 0 on the empty list and does
  not throw. The frequency collection of the empty list is empty, so no count meets the
  threshold and the sum, which throws on the empty list, is never evaluated.
\<close>

theorem chance_empty_hand:
  "freq [] = [] \<and> \<not> list_ex (\<lambda>c. c \<ge> 0) (freq []) \<and> sum_dice [] = Inl TypeError \<and>
   evalRoll chance [] = Inr 0"
  by (simp add: freq_def map_values_def chance_def)

section \<open>The straights\<close>

text \<open>
  C2: on a hand of five dice with faces 1 to 6, \<^verbatim>\<open>SmallStraight.evalRoll\<close> returns the rule's
  flat score exactly when the hand has four distinct faces and misses both 1 and 2, or both
  1 and 6, or both 5 and 6, or it has five distinct faces and misses 1 or misses 6;
  otherwise it returns 0.
\<close>

theorem smallStraight_evalRoll:
  assumes "valid_hand dice"
  shows "evalRoll (SmallStraight score desc) dice =
     Inr (if (card (set dice) = 4 \<and>
               (1 \<notin> set dice \<and> 2 \<notin> set dice \<or> 1 \<notin> set dice \<and> 6 \<notin> set dice \<or>
                5 \<notin> set dice \<and> 6 \<notin> set dice)) \<or>
              (card (set dice) = 5 \<and> (1 \<notin> set dice \<or> 6 \<notin> set dice))
          then score else 0)"
  by (simp add: set_size_new_Set set_has_new_Set)

theorem smallStraight_evalRoll_witness:
  "valid_hand [3, 4, 3, 5, 6] \<and> evalRoll smallStraight [3, 4, 3, 5, 6] = Inr 30"
proof -
  have h: "valid_hand [3, 4, 3, 5, 6]" by (simp add: valid_hand_def)
  have "evalRoll smallStraight [3, 4, 3, 5, 6] = Inr 30"
    unfolding smallStraight_def
    by (simp only: smallStraight_evalRoll [OF h]) (simp add: card_insert_if)
  with h show ?thesis ..
qed

text \<open>
  C8: on a hand of five dice with faces 1 to 6, \<^verbatim>\<open>LargeStraight.evalRoll\<close> returns the flat
  score exactly when the hand has five distinct faces and misses 1 or misses 6, which on
  such hands says that its faces are exactly 1 to 5 or exactly 2 to 6; otherwise it returns
  0. The hand 2, 3, 4, 5, 6 scores 40 and the hand 1, 2, 3, 4, 6 scores 0.
\<close>

theorem largeStraight_evalRoll:
  assumes "valid_hand dice"
  shows "evalRoll (LargeStraight score desc) dice =
           Inr (if card (set dice) = 5 \<and> (1 \<notin> set dice \<or> 6 \<notin> set dice) then score else 0) \<and>
         ((card (set dice) = 5 \<and> (1 \<notin> set dice \<or> 6 \<notin> set dice)) =
          (set dice = {1, 2, 3, 4, 5} \<or> set dice = {2, 3, 4, 5, 6})) \<and>
         evalRoll largeStraight [2, 3, 4, 5, 6] = Inr 40 \<and>
         evalRoll largeStraight [1, 2, 3, 4, 6] = Inr 0"
proof -
  have sub: "set dice \<subseteq> {1, 2, 3, 4, 5, 6}" using assms by (rule valid_hand_faces)
  have code: "evalRoll (LargeStraight score desc) dice =
      Inr (if card (set dice) = 5 \<and> (1 \<notin> set dice \<or> 6 \<notin> set dice) then score else 0)"
    by (simp add: set_size_new_Set set_has_new_Set)
  have runs: "(card (set dice) = 5 \<and> (1 \<notin> set dice \<or> 6 \<notin> set dice)) =
      (set dice = {1, 2, 3, 4, 5} \<or> set dice = {2, 3, 4, 5, 6})"
  proof
    assume a: "card (set dice) = 5 \<and> (1 \<notin> set dice \<or> 6 \<notin> set dice)"
    then consider "1 \<notin> set dice" | "6 \<notin> set dice" by blast
    then show "set dice = {1, 2, 3, 4, 5} \<or> set dice = {2, 3, 4, 5, 6}"
    proof cases
      case 1
      with sub have "set dice \<subseteq> {2, 3, 4, 5, 6}" by auto
      moreover have "card {2, 3, 4, 5, 6 :: int} = 5" by simp
      ultimately have "set dice = {2, 3, 4, 5, 6}"
        using a by (intro card_subset_eq) auto
      then show ?thesis ..
    next
      case 2
      with sub have "set dice \<subseteq> {1, 2, 3, 4, 5}" by auto
      moreover have "card {1, 2, 3, 4, 5 :: int} = 5" by simp
      ultimately have "set dice = {1, 2, 3, 4, 5}"
        using a by (intro card_subset_eq) auto
      then show ?thesis ..
    qed
  next
    assume "set dice = {1, 2, 3, 4, 5} \<or> set dice = {2, 3, 4, 5, 6}"
    then show "card (set dice) = 5 \<and> (1 \<notin> set dice \<or> 6 \<notin> set dice)" by auto
  qed
  have ex1: "evalRoll largeStraight [2, 3, 4, 5, 6] = Inr 40"
    by (simp add: largeStraight_def new_Set_def set_size_def set_has_def)
  have ex2: "evalRoll largeStraight [1, 2, 3, 4, 6] = Inr 0"
    by (simp add: largeStraight_def new_Set_def set_size_def set_has_def)
  from code runs ex1 ex2 show ?thesis by (intro conjI)
qed

theorem largeStraight_evalRoll_witness:
  "valid_hand [6, 2, 5, 3, 4] \<and> evalRoll largeStraight [6, 2, 5, 3, 4] = Inr 40"
proof -
  have h: "valid_hand [6, 2, 5, 3, 4]" by (simp add: valid_hand_def)
  note code = largeStraight_evalRoll [OF h, THEN conjunct1]
  have "evalRoll largeStraight [6, 2, 5, 3, 4] = Inr 40"
    unfolding largeStraight_def by (simp only: code) (simp add: card_insert_if)
  with h show ?thesis ..
qed

section \<open>The rules on the frequency collection\<close>

text \<open>
  C6: on a hand of five dice with faces 1 to 6, \<^verbatim>\<open>FullHouse.evalRoll\<close> returns the flat score
  exactly when some face occurs exactly three times and, tested on its own over the same
  frequencies, some face occurs exactly twice; otherwise it returns 0. The hand
  2, 2, 3, 3, 3 scores 25 and the hand 2, 2, 2, 2, 3 scores 0.
\<close>

theorem fullHouse_evalRoll:
  assumes "valid_hand dice"
  shows "evalRoll (FullHouse score desc) dice =
           Inr (if (\<exists>v \<in> set dice. count_list dice v = 3) \<and> (\<exists>w \<in> set dice. count_list dice w = 2)
                then score else 0) \<and>
         evalRoll fullHouse [2, 2, 3, 3, 3] = Inr 25 \<and>
         evalRoll fullHouse [2, 2, 2, 2, 3] = Inr 0"
proof -
  have mem: "(c \<in> set (freq dice)) = (\<exists>v \<in> set dice. int (count_list dice v) = c)" for c
    by (auto simp: set_freq)
  have code: "evalRoll (FullHouse score desc) dice =
      Inr (if (\<exists>v \<in> set dice. count_list dice v = 3) \<and> (\<exists>w \<in> set dice. count_list dice w = 2)
           then score else 0)"
    using mem [of 3] mem [of 2] by (simp add: list_ex_iff)
  have ex1: "evalRoll fullHouse [2, 2, 3, 3, 3] = Inr 25"
    by (simp add: fullHouse_def freq_def freq_step_def map_values_def)
  have ex2: "evalRoll fullHouse [2, 2, 2, 2, 3] = Inr 0"
    by (simp add: fullHouse_def freq_def freq_step_def map_values_def)
  from code ex1 ex2 show ?thesis by (intro conjI)
qed

theorem fullHouse_evalRoll_witness:
  "valid_hand [5, 1, 5, 1, 5] \<and> evalRoll fullHouse [5, 1, 5, 1, 5] = Inr 25"
proof -
  have h: "valid_hand [5, 1, 5, 1, 5]" by (simp add: valid_hand_def)
  note code = fullHouse_evalRoll [OF h, THEN conjunct1]
  have "evalRoll fullHouse [5, 1, 5, 1, 5] = Inr 25"
    unfolding fullHouse_def by (simp only: code) simp
  with h show ?thesis ..
qed

text \<open>
  C7: on a hand of five dice with faces 1 to 6, \<^verbatim>\<open>Yahtzee.evalRoll\<close> returns the flat score
  exactly when all five dice are equal, and 0 otherwise. When all five dice are equal,
  \<^verbatim>\<open>freq\<close> returns exactly one entry, of value 5, so the test of the first entry succeeds.
  The hand 4, 4, 4, 4, 4 scores 50 and the hand 4, 4, 4, 4, 5 scores 0.
\<close>

theorem yahtzee_evalRoll:
  assumes "valid_hand dice"
  shows "evalRoll (Yahtzee score desc) dice =
           Inr (if \<exists>v. \<forall>d \<in> set dice. d = v then score else 0) \<and>
         ((\<exists>v. \<forall>d \<in> set dice. d = v) \<longrightarrow> freq dice = [5]) \<and>
         evalRoll yahtzee [4, 4, 4, 4, 4] = Inr 50 \<and>
         evalRoll yahtzee [4, 4, 4, 4, 5] = Inr 0"
proof -
  from assms have len: "length dice = 5" by (simp add: valid_hand_def)
  have eq: "(\<exists>v. count_list dice v = 5) = (\<exists>v. \<forall>d \<in> set dice. d = v)"
    using len by (simp flip: count_list_full)
  have code: "evalRoll (Yahtzee score desc) dice =
      Inr (if \<exists>v. \<forall>d \<in> set dice. d = v then score else 0)"
    by (simp only: evalRoll.simps index0_freq_5 [OF len] eq)
  have single: "(\<exists>v. \<forall>d \<in> set dice. d = v) \<longrightarrow> freq dice = [5]"
  proof
    assume "\<exists>v. \<forall>d \<in> set dice. d = v"
    then obtain v where "\<forall>d \<in> set dice. d = v" ..
    with len have "dice = [v, v, v, v, v]" by (rule all_equal_replicate)
    then show "freq dice = [5]" by (simp only: freq_all_equal)
  qed
  have ex1: "evalRoll yahtzee [4, 4, 4, 4, 4] = Inr 50"
    by (simp add: yahtzee_def freq_def freq_step_def map_values_def)
  have ex2: "evalRoll yahtzee [4, 4, 4, 4, 5] = Inr 0"
    by (simp add: yahtzee_def freq_def freq_step_def map_values_def)
  from code single ex1 ex2 show ?thesis by (intro conjI)
qed

theorem yahtzee_evalRoll_witness:
  "valid_hand [2, 2, 2, 2, 2] \<and> evalRoll yahtzee [2, 2, 2, 2, 2] = Inr 50 \<and>
   freq [2, 2, 2, 2, 2] = [5]"
proof -
  have h: "valid_hand [2, 2, 2, 2, 2]" by (simp add: valid_hand_def)
  have a: "\<exists>v. \<forall>d \<in> set [2, 2, 2, 2, 2 :: int]. d = v" by simp
  note code = yahtzee_evalRoll [OF h, THEN conjunct1]
  note single = yahtzee_evalRoll [OF h, THEN conjunct2, THEN conjunct1]
  have r: "evalRoll yahtzee [2, 2, 2, 2, 2] = Inr 50"
    unfolding yahtzee_def by (simp only: code a if_True)
  from single a have f: "freq [2, 2, 2, 2, 2] = [5]" ..
  from h r f show ?thesis by (intro conjI)
qed

text \<open>
  C5: on a hand of five dice with faces 1 to 6, \<^verbatim>\<open>SumDistro.evalRoll\<close> with threshold \<open>c\<close>
  returns the sum of all dice if some face of the hand occurs at least \<open>c\<close> times, that is,
  if the largest frequency is at least \<open>c\<close>, and 0 otherwise. With \<open>c = 0\<close>, the chance rule,
  it returns the sum of the hand unconditionally: 1, 1, 1, 1, 1 scores 5. With \<open>c = 3\<close> the
  hand 3, 3, 3, 4, 5 scores 18.
\<close>

theorem sumDistro_evalRoll:
  assumes "valid_hand dice"
  shows "evalRoll (SumDistro c desc) dice =
           Inr (if \<exists>v \<in> set dice. c \<le> int (count_list dice v) then sum_list dice else 0) \<and>
         ((\<exists>v \<in> set dice. c \<le> int (count_list dice v)) =
          (c \<le> Max ((\<lambda>v. int (count_list dice v)) ` set dice))) \<and>
         evalRoll (SumDistro 0 desc) dice = Inr (sum_list dice) \<and>
         evalRoll chance dice = Inr (sum_list dice) \<and>
         evalRoll chance [1, 1, 1, 1, 1] = Inr 5 \<and>
         evalRoll threeOfKind [3, 3, 3, 4, 5] = Inr 18"
proof -
  from assms have ne: "dice \<noteq> []" by (rule valid_hand_nonempty)
  have some: "list_ex (\<lambda>x. k \<le> x) (freq dice) = (\<exists>v \<in> set dice. k \<le> int (count_list dice v))"
    for k
    by (simp add: list_ex_iff set_freq)
  have code: "evalRoll (SumDistro c desc) dice =
      Inr (if \<exists>v \<in> set dice. c \<le> int (count_list dice v) then sum_list dice else 0)"
    by (simp add: some sum_dice_sum_list [OF ne])
  have mx: "(\<exists>v \<in> set dice. c \<le> int (count_list dice v)) =
      (c \<le> Max ((\<lambda>v. int (count_list dice v)) ` set dice))"
    using ne by (subst Max_ge_iff) auto
  from ne obtain d where "d \<in> set dice" by (cases dice) auto
  then have "\<exists>v \<in> set dice. 0 \<le> int (count_list dice v)" by auto
  then have ch: "evalRoll (SumDistro 0 desc') dice = Inr (sum_list dice)" for desc'
    by (simp add: some sum_dice_sum_list [OF ne])
  have ch': "evalRoll chance dice = Inr (sum_list dice)"
    unfolding chance_def by (rule ch)
  have ex1: "evalRoll chance [1, 1, 1, 1, 1] = Inr 5"
    by (simp add: chance_def freq_def freq_step_def map_values_def)
  have ex2: "evalRoll threeOfKind [3, 3, 3, 4, 5] = Inr 18"
    by (simp add: threeOfKind_def freq_def freq_step_def map_values_def)
  from code mx ch [of desc] ch' ex1 ex2 show ?thesis by (intro conjI)
qed

theorem sumDistro_evalRoll_witness:
  "valid_hand [6, 2, 6, 6, 1] \<and> evalRoll threeOfKind [6, 2, 6, 6, 1] = Inr 21 \<and>
   evalRoll fourOfKind [6, 2, 6, 6, 1] = Inr 0 \<and> evalRoll chance [6, 2, 6, 6, 1] = Inr 21"
proof -
  have h: "valid_hand [6, 2, 6, 6, 1]" by (simp add: valid_hand_def)
  note code = sumDistro_evalRoll [OF h, THEN conjunct1]
  have a: "evalRoll threeOfKind [6, 2, 6, 6, 1] = Inr 21"
    unfolding threeOfKind_def by (simp only: code) simp
  have b: "evalRoll fourOfKind [6, 2, 6, 6, 1] = Inr 0"
    unfolding fourOfKind_def by (simp only: code) simp
  have c: "evalRoll chance [6, 2, 6, 6, 1] = Inr 21"
    unfolding chance_def by (simp only: code) auto
  from h a b c show ?thesis by (intro conjI)
qed

section \<open>The order of the dice\<close>

text \<open>
  C9: for every rule, so for each exported instance, and every hand of five dice with faces
  1 to 6, \<^verbatim>\<open>evalRoll\<close> depends on the multiset of the dice only: every permutation of the
  hand gets the same score. This includes \<^verbatim>\<open>Yahtzee\<close>, which reads the first entry of the
  insertion-ordered frequency collection.
\<close>

theorem evalRoll_permutation:
  assumes "valid_hand dice" and "mset dice' = mset dice"
  shows "evalRoll r dice' = evalRoll r dice"
proof -
  from assms(2) have st: "set dice' = set dice" by (rule mset_eq_setD)
  from assms(2) have len: "length dice' = length dice" by (rule mset_eq_length)
  from assms(1) have len5: "length dice = 5" by (simp add: valid_hand_def)
  from assms(2) have cnt: "count_list dice' v = count_list dice v" for v
    by (rule count_list_mset)
  from assms(2) have fr: "set (freq dice') = set (freq dice)" by (rule set_freq_mset)
  from len5 have ne: "dice \<noteq> []" by auto
  from len len5 have ne': "dice' \<noteq> []" by auto
  show ?thesis
  proof (cases r)
    case (TotalOneNumber val desc)
    then show ?thesis by (simp add: count_dice_count_list cnt)
  next
    case (SumDistro c desc)
    have "sum_dice dice' = sum_dice dice"
      using sum_list_mset [OF assms(2)] by (simp add: sum_dice_sum_list ne ne')
    with SumDistro show ?thesis by (simp add: list_ex_iff fr)
  next
    case (FullHouse score desc)
    then show ?thesis by (simp add: list_ex_iff fr)
  next
    case (SmallStraight score desc)
    then show ?thesis by (simp add: set_size_new_Set set_has_new_Set st)
  next
    case (LargeStraight score desc)
    then show ?thesis by (simp add: set_size_new_Set set_has_new_Set st)
  next
    case (Yahtzee score desc)
    have "(index0 (freq dice') = Some 5) = (index0 (freq dice) = Some 5)"
      using len len5 by (simp add: index0_freq_5 cnt)
    with Yahtzee show ?thesis by simp
  qed
qed

theorem evalRoll_permutation_witness:
  "valid_hand [4, 4, 4, 4, 5] \<and> mset [5, 4, 4, 4, 4] = mset [4, 4, 4, 4, 5 :: int] \<and>
   evalRoll yahtzee [5, 4, 4, 4, 4] = evalRoll yahtzee [4, 4, 4, 4, 5] \<and>
   evalRoll fourOfKind [5, 4, 4, 4, 4] = evalRoll fourOfKind [4, 4, 4, 4, 5]"
proof -
  have h: "valid_hand [4, 4, 4, 4, 5]" by (simp add: valid_hand_def)
  have m: "mset [5, 4, 4, 4, 4] = mset [4, 4, 4, 4, 5 :: int]" by (simp add: add_mset_commute)
  from h m evalRoll_permutation [OF h m, of yahtzee] evalRoll_permutation [OF h m, of fourOfKind]
  show ?thesis by (intro conjI)
qed

text \<open>
  The length of the hand matters for \<^verbatim>\<open>Yahtzee\<close>: on six dice the first entry of the
  frequency collection depends on which die comes first.
\<close>

lemma yahtzee_six_dice_order:
  "mset [2, 1, 1, 1, 1, 1] = mset [1, 1, 1, 1, 1, 2 :: int] \<and>
   evalRoll yahtzee [1, 1, 1, 1, 1, 2] = Inr 50 \<and> evalRoll yahtzee [2, 1, 1, 1, 1, 1] = Inr 0"
  by (simp add: yahtzee_def freq_def freq_step_def map_values_def add_mset_commute)

section \<open>Malformed hands\<close>

text \<open>
  The claim C3, that every rule raises a validation error on a malformed hand, fails on the
  code: the empty hand, a hand of three dice and a hand of five sevens all get a score, the
  last one a score of 50.
\<close>

theorem malformed_hand_scores:
  "\<not> valid_hand [] \<and> evalRoll ones [] = Inr 0 \<and>
   \<not> valid_hand [1, 2, 3] \<and> evalRoll threeOfKind [1, 2, 3] = Inr 0 \<and>
   \<not> valid_hand [7, 7, 7, 7, 7] \<and> evalRoll yahtzee [7, 7, 7, 7, 7] = Inr 50"
  by (simp add: valid_hand_def ones_def threeOfKind_def yahtzee_def count_dice_def
      freq_def freq_step_def map_values_def)

text \<open>
  C3, as the code has it: no rule checks its hand. For every rule and every list of integers,
  well-formed or not, \<^verbatim>\<open>evalRoll\<close> returns a score and does not throw, and the empty hand
  scores 0 under every rule.
\<close>

theorem evalRoll_no_validation:
  "(\<exists>s. evalRoll r dice = Inr s) \<and> evalRoll r [] = Inr 0"
proof (cases r)
  case (SumDistro c desc)
  have "list_ex (\<lambda>x. c \<le> x) (freq dice) \<Longrightarrow> dice \<noteq> []"
    by (auto simp: freq_def map_values_def)
  then have "\<exists>s. evalRoll (SumDistro c desc) dice = Inr s"
    by (simp add: sum_dice_sum_list)
  moreover have "evalRoll (SumDistro c desc) [] = Inr 0"
    by (simp add: freq_def map_values_def)
  ultimately show ?thesis using SumDistro by simp
qed (simp_all add: count_dice_def freq_def map_values_def new_Set_def set_size_def Let_def)

theorem evalRoll_no_validation_witness:
  "(\<exists>s. evalRoll threeOfKind [2, 2, 2] = Inr s) \<and> evalRoll threeOfKind [] = Inr 0"
  by (rule evalRoll_no_validation)

section \<open>Bounds on the scores\<close>

text \<open>
  The claim C4 bounds the score of the four-of-a-kind rule by 24. The rule pays the sum of
  all five dice, so five sixes score 30.
\<close>

theorem fourOfKind_exceeds_24:
  "valid_hand [6, 6, 6, 6, 6] \<and> evalRoll fourOfKind [6, 6, 6, 6, 6] = Inr 30"
  by (simp add: valid_hand_def fourOfKind_def freq_def freq_step_def map_values_def)

text \<open>
  C4, with the bound of the four-of-a-kind rule set to 30: on a hand of five dice with faces
  1 to 6, every exported rule returns a score that is not negative; a flat rule returns 0 or
  its \<^verbatim>\<open>score\<close> parameter, so at most 25, 30, 40 and 50 for the four exported flat rules;
  \<^verbatim>\<open>TotalOneNumber\<close> returns \<^verbatim>\<open>val\<close> times the number of dice showing \<^verbatim>\<open>val\<close> and \<^verbatim>\<open>SumDistro\<close>
  returns 0 or the sum of the hand; the sixes rule never exceeds 30 and the four-of-a-kind
  rule never exceeds 30.
\<close>

theorem evalRoll_score_bounds:
  assumes "valid_hand dice"
  shows "(\<forall>r \<in> set all_rules. \<exists>s. evalRoll r dice = Inr s \<and> 0 \<le> s) \<and>
         (\<forall>r \<in> {FullHouse score desc, SmallStraight score desc, LargeStraight score desc,
                Yahtzee score desc}.
            evalRoll r dice = Inr 0 \<or> evalRoll r dice = Inr score) \<and>
         (\<exists>s. evalRoll fullHouse dice = Inr s \<and> s \<le> 25) \<and>
         (\<exists>s. evalRoll smallStraight dice = Inr s \<and> s \<le> 30) \<and>
         (\<exists>s. evalRoll largeStraight dice = Inr s \<and> s \<le> 40) \<and>
         (\<exists>s. evalRoll yahtzee dice = Inr s \<and> s \<le> 50) \<and>
         evalRoll (TotalOneNumber val desc) dice = Inr (val * int (count_list dice val)) \<and>
         (evalRoll (SumDistro c desc) dice = Inr 0 \<or>
          evalRoll (SumDistro c desc) dice = Inr (sum_list dice)) \<and>
         (\<exists>s. evalRoll sixes dice = Inr s \<and> s \<le> 30) \<and>
         (\<exists>s. evalRoll fourOfKind dice = Inr s \<and> s \<le> 30)"
proof -
  from assms have ne: "dice \<noteq> []" by (rule valid_hand_nonempty)
  note sm = valid_hand_sum [OF assms]
  note ct = valid_hand_count [OF assms]
  have tot: "\<exists>s. evalRoll (TotalOneNumber val' desc') dice = Inr s \<and> 0 \<le> s \<and> s \<le> val' * 5"
    if "0 \<le> val'" for val' desc'
  proof -
    have "val' * int (count_list dice val') \<le> val' * 5"
      using that ct [of val'] by (intro mult_left_mono) auto
    moreover have "0 \<le> val' * int (count_list dice val')" using that by simp
    ultimately show ?thesis unfolding evalRoll_TotalOneNumber by simp
  qed
  have dist: "\<exists>s. evalRoll (SumDistro c' desc') dice = Inr s \<and> 0 \<le> s \<and> s \<le> 30" for c' desc'
    using evalRoll_SumDistro_cases [OF ne, of c' desc'] sm by auto
  have flat: "\<exists>s. evalRoll r dice = Inr s \<and> 0 \<le> s \<and> s \<le> score'"
    if "r \<in> {FullHouse score' desc', SmallStraight score' desc', LargeStraight score' desc',
              Yahtzee score' desc'}" and "0 \<le> score'" for r score' desc'
    using evalRoll_flat_cases [OF that(1), of dice] that(2) by auto
  have nonneg: "\<forall>r \<in> set all_rules. \<exists>s. evalRoll r dice = Inr s \<and> 0 \<le> s"
  proof
    fix r assume "r \<in> set all_rules"
    then consider (t) val' desc' where "r = TotalOneNumber val' desc'" "0 \<le> val'"
      | (d) c' desc' where "r = SumDistro c' desc'"
      | (f) score' desc' where
          "r \<in> {FullHouse score' desc', SmallStraight score' desc', LargeStraight score' desc',
                 Yahtzee score' desc'}" "0 \<le> score'"
      unfolding all_rules_def rule_defs by auto
    then show "\<exists>s. evalRoll r dice = Inr s \<and> 0 \<le> s"
    proof cases
      case t
      with tot [of val' desc'] show ?thesis by auto
    next
      case d
      with dist [of c' desc'] show ?thesis by auto
    next
      case f
      with flat [of r score' desc'] show ?thesis by auto
    qed
  qed
  have flats: "\<forall>r \<in> {FullHouse score desc, SmallStraight score desc, LargeStraight score desc,
                Yahtzee score desc}.
            evalRoll r dice = Inr 0 \<or> evalRoll r dice = Inr score"
    using evalRoll_flat_cases [of _ score desc dice] by blast
  have fh: "\<exists>s. evalRoll fullHouse dice = Inr s \<and> s \<le> 25"
    unfolding fullHouse_def using flat [of "FullHouse 25 d'" 25 d' for d'] by auto
  have ss: "\<exists>s. evalRoll smallStraight dice = Inr s \<and> s \<le> 30"
    unfolding smallStraight_def using flat [of "SmallStraight 30 d'" 30 d' for d'] by auto
  have ls: "\<exists>s. evalRoll largeStraight dice = Inr s \<and> s \<le> 40"
    unfolding largeStraight_def using flat [of "LargeStraight 40 d'" 40 d' for d'] by auto
  have yz: "\<exists>s. evalRoll yahtzee dice = Inr s \<and> s \<le> 50"
    unfolding yahtzee_def using flat [of "Yahtzee 50 d'" 50 d' for d'] by auto
  have six: "\<exists>s. evalRoll sixes dice = Inr s \<and> s \<le> 30"
    unfolding sixes_def using tot [of 6] by auto
  have four: "\<exists>s. evalRoll fourOfKind dice = Inr s \<and> s \<le> 30"
    unfolding fourOfKind_def using dist [of 4] by auto
  from nonneg flats fh ss ls yz evalRoll_TotalOneNumber [of val desc dice]
    evalRoll_SumDistro_cases [OF ne, of c desc] six four
  show ?thesis by (intro conjI)
qed

theorem evalRoll_score_bounds_witness:
  "valid_hand [6, 6, 6, 6, 5] \<and>
   (\<exists>s. evalRoll fourOfKind [6, 6, 6, 6, 5] = Inr s \<and> s \<le> 30) \<and>
   (\<exists>s. evalRoll sixes [6, 6, 6, 6, 5] = Inr s \<and> s \<le> 30)"
proof -
  have h: "valid_hand [6, 6, 6, 6, 5]" by (simp add: valid_hand_def)
  from evalRoll_score_bounds [OF h] h show ?thesis by blast
qed

section \<open>Small straights against the reference check\<close>

text \<open>
  C1, at the hand 1, 2, 3, 4, 6: the hand is well-formed and its distinct faces hold the run
  1, 2, 3, 4 of four consecutive values, yet the exported small-straight rule, described as
  ``If 4+ values in a row, score 30'', returns 0 where the claim states 30.
\<close>

theorem smallStraight_misses_run:
  "valid_hand [1, 2, 3, 4, 6] \<and> longest_run [1, 2, 3, 4, 6] = 4 \<and>
   evalRoll smallStraight [1, 2, 3, 4, 6] = Inr 0"
  by (simp add: valid_hand_def longest_run_def run_at_def faces_def smallStraight_def
      new_Set_def set_size_def set_has_def)

text \<open>
  The other two hands of the claim score as it says; the hand 1, 3, 4, 5, 6 is missed like
  the hand above.
\<close>

lemma smallStraight_other_examples:
  "evalRoll smallStraight [1, 1, 2, 3, 4] = Inr 30 \<and> longest_run [1, 1, 2, 3, 4] = 4 \<and>
   evalRoll smallStraight [1, 2, 4, 5, 6] = Inr 0 \<and> longest_run [1, 2, 4, 5, 6] = 3 \<and>
   evalRoll smallStraight [1, 3, 4, 5, 6] = Inr 0 \<and> longest_run [1, 3, 4, 5, 6] = 4"
  by (simp add: longest_run_def run_at_def faces_def smallStraight_def
      new_Set_def set_size_def set_has_def)

text \<open>
  On well-formed hands the rule agrees with the reference check except on the hands with
  five distinct faces that hold both 1 and 6: there a run of four (the faces 1, 2, 3, 4, 6
  or 1, 3, 4, 5, 6) scores 0.
\<close>

lemma longest_run_4:
  "(4 \<le> longest_run dice) =
     (1 \<in> set dice \<and> 2 \<in> set dice \<and> 3 \<in> set dice \<and> 4 \<in> set dice \<or>
      2 \<in> set dice \<and> 3 \<in> set dice \<and> 4 \<in> set dice \<and> 5 \<in> set dice \<or>
      3 \<in> set dice \<and> 4 \<in> set dice \<and> 5 \<in> set dice \<and> 6 \<in> set dice)"
  by (cases "1 \<in> set dice"; cases "2 \<in> set dice"; cases "3 \<in> set dice";
      cases "4 \<in> set dice"; cases "5 \<in> set dice"; cases "6 \<in> set dice";
      simp add: longest_run_def run_at_def faces_def)

lemma run_of_four:
  assumes "4 \<le> longest_run dice"
  obtains T where "T \<subseteq> set dice" and "card T = 4"
    and "T = {1, 2, 3, 4} \<or> T = {2, 3, 4, 5} \<or> T = {3, 4, 5, 6}"
proof -
  from assms consider
      (x) "{1, 2, 3, 4} \<subseteq> set dice"
    | (y) "{2, 3, 4, 5} \<subseteq> set dice"
    | (z) "{3, 4, 5, 6} \<subseteq> set dice"
    unfolding longest_run_4 by auto
  then show ?thesis
  proof cases
    case x
    show ?thesis by (rule that [of "{1, 2, 3, 4}"]) (use x in auto)
  next
    case y
    show ?thesis by (rule that [of "{2, 3, 4, 5}"]) (use y in auto)
  next
    case z
    show ?thesis by (rule that [of "{3, 4, 5, 6}"]) (use z in auto)
  qed
qed


lemma smallStraight_vs_reference:
  assumes "valid_hand dice"
  shows "evalRoll smallStraight dice =
     Inr (if 4 \<le> longest_run dice \<and>
             \<not> (card (set dice) = 5 \<and> 1 \<in> set dice \<and> 6 \<in> set dice)
          then 30 else 0)"
proof -
  let ?S = "set dice"
  have sub: "?S \<subseteq> {1, 2, 3, 4, 5, 6}" using assms by (rule valid_hand_faces)
  have "card ?S \<le> length dice" by (rule card_length)
  with assms have le5: "card ?S \<le> 5" by (simp add: valid_hand_def)
  have eqI: "?S = T" if "finite T" "?S \<subseteq> T" "card ?S = card T" for T
    using that by (rule card_subset_eq)
  let ?code = "(card ?S = 4 \<and>
      (1 \<notin> ?S \<and> 2 \<notin> ?S \<or> 1 \<notin> ?S \<and> 6 \<notin> ?S \<or> 5 \<notin> ?S \<and> 6 \<notin> ?S)) \<or>
      (card ?S = 5 \<and> (1 \<notin> ?S \<or> 6 \<notin> ?S))"
  let ?ref = "4 \<le> longest_run dice \<and> \<not> (card ?S = 5 \<and> 1 \<in> ?S \<and> 6 \<in> ?S)"
  have code: "evalRoll smallStraight dice = Inr (if ?code then 30 else 0)"
    by (simp add: smallStraight_def set_size_new_Set set_has_new_Set)
  have eq: "?code = ?ref"
  proof
    assume ?code
    then consider
        (a) "card ?S = 4" "1 \<notin> ?S" "2 \<notin> ?S"
      | (b) "card ?S = 4" "1 \<notin> ?S" "6 \<notin> ?S"
      | (c) "card ?S = 4" "5 \<notin> ?S" "6 \<notin> ?S"
      | (d) "card ?S = 5" "1 \<notin> ?S"
      | (e) "card ?S = 5" "6 \<notin> ?S"
      by blast
    then show ?ref
    proof cases
      case a
      with sub have "?S \<subseteq> {3, 4, 5, 6}" by auto
      then have "?S = {3, 4, 5, 6}" by (rule eqI [rotated]) (simp_all add: a)
      with a show ?thesis by (simp add: longest_run_4)
    next
      case b
      with sub have "?S \<subseteq> {2, 3, 4, 5}" by auto
      then have "?S = {2, 3, 4, 5}" by (rule eqI [rotated]) (simp_all add: b)
      with b show ?thesis by (simp add: longest_run_4)
    next
      case c
      with sub have "?S \<subseteq> {1, 2, 3, 4}" by auto
      then have "?S = {1, 2, 3, 4}" by (rule eqI [rotated]) (simp_all add: c)
      with c show ?thesis by (simp add: longest_run_4)
    next
      case d
      with sub have "?S \<subseteq> {2, 3, 4, 5, 6}" by auto
      then have "?S = {2, 3, 4, 5, 6}" by (rule eqI [rotated]) (simp_all add: d)
      with d show ?thesis by (simp add: longest_run_4)
    next
      case e
      with sub have "?S \<subseteq> {1, 2, 3, 4, 5}" by auto
      then have "?S = {1, 2, 3, 4, 5}" by (rule eqI [rotated]) (simp_all add: e)
      with e show ?thesis by (simp add: longest_run_4)
    qed
  next
    assume r: ?ref
    then have "4 \<le> longest_run dice" ..
    then obtain T where T: "T \<subseteq> ?S" "card T = 4"
      "T = {1, 2, 3, 4} \<or> T = {2, 3, 4, 5} \<or> T = {3, 4, 5, 6}"
      by (rule run_of_four)
    from T(1) have "card T \<le> card ?S" by (intro card_mono) auto
    with T(2) le5 consider (four) "card ?S = 4" | (five) "card ?S = 5" by linarith
    then show ?code
    proof cases
      case four
      have "T = ?S" using T(1) by (rule card_subset_eq [rotated]) (simp_all add: T(2) four)
      with T(3) four show ?thesis by auto
    next
      case five
      with r show ?thesis by blast
    qed
  qed
  show ?thesis by (simp only: code eq)
qed

end
